theory Spec2Isabelle
  imports Main "HOL-Library.Word"
begin

section \<open>JavaScript strings\<close>

text \<open>
  A JavaScript string is a sequence of 16-bit code units; \<open>includes\<close>, \<open>===\<close>,
  \<open>replace\<close>, \<open>JSON.stringify\<close>, \<open>JSON.parse\<close> and \<open>localStorage\<close> all work on
  that sequence. \<open>js\<close> turns an ASCII literal of the theory into such a string.
\<close>

type_synonym code_unit = "16 word"
type_synonym js_string = "code_unit list"

definition js :: "string \<Rightarrow> js_string" where
  "js s = map (\<lambda>c. of_nat (of_char c)) s"

section \<open>JSON.stringify on an array of strings\<close>

text \<open>
  \<open>toggleComplete\<close> calls \<open>JSON.stringify(updated)\<close> with \<open>updated : string[]\<close>.
  ECMAScript's QuoteJSONString walks the code points of the string: the seven characters
  of its table get a two-character escape, any other code unit below U+0020 and any
  surrogate that is not half of a pair is written \<open>\uXXXX\<close> with lower-case hex digits,
  every other code point is copied. SerializeJSONArray with no gap writes the elements
  between brackets, separated by commas.
\<close>

definition hex_digit :: "nat \<Rightarrow> code_unit" where
  "hex_digit d = (if d < 10 then 0x30 + of_nat d else 0x61 + of_nat (d - 10))"

definition UnicodeEscape :: "code_unit \<Rightarrow> js_string" where
  "UnicodeEscape c =
     [0x5C, 0x75,
      hex_digit (unat c div 4096), hex_digit (unat c div 256 mod 16),
      hex_digit (unat c div 16 mod 16), hex_digit (unat c mod 16)]"

definition is_leading_surrogate :: "code_unit \<Rightarrow> bool" where
  "is_leading_surrogate c = (0xD800 \<le> c \<and> c \<le> 0xDBFF)"

definition is_trailing_surrogate :: "code_unit \<Rightarrow> bool" where
  "is_trailing_surrogate c = (0xDC00 \<le> c \<and> c \<le> 0xDFFF)"

definition quote_unit :: "code_unit \<Rightarrow> js_string" where
  "quote_unit c =
     (if c = 0x08 then [0x5C, 0x62]
      else if c = 0x09 then [0x5C, 0x74]
      else if c = 0x0A then [0x5C, 0x6E]
      else if c = 0x0C then [0x5C, 0x66]
      else if c = 0x0D then [0x5C, 0x72]
      else if c = 0x22 then [0x5C, 0x22]
      else if c = 0x5C then [0x5C, 0x5C]
      else if c < 0x20 \<or> is_leading_surrogate c \<or> is_trailing_surrogate c
        then UnicodeEscape c
      else [c])"

fun quote_units :: "js_string \<Rightarrow> js_string" where
  "quote_units [] = []"
| "quote_units [c] = quote_unit c"
| "quote_units (c # d # cs) =
     (if is_leading_surrogate c \<and> is_trailing_surrogate d
      then c # d # quote_units cs
      else quote_unit c @ quote_units (d # cs))"

definition QuoteJSONString :: "js_string \<Rightarrow> js_string" where
  "QuoteJSONString s = 0x22 # quote_units s @ [0x22]"

fun join_commas :: "js_string list \<Rightarrow> js_string" where
  "join_commas [] = []"
| "join_commas [x] = x"
| "join_commas (x # y # ys) = x @ 0x2C # join_commas (y # ys)"

definition JSON_stringify :: "js_string list \<Rightarrow> js_string" where
  "JSON_stringify xs = 0x5B # join_commas (map QuoteJSONString xs) @ [0x5D]"

section \<open>JSON.parse\<close>

text \<open>
  The value \<open>JSON.parse\<close> returns. A number keeps the text it was read from (its value
  as a double plays no part here), an object keeps its members in the order of the text.
\<close>

datatype json =
    JNull
  | JBool bool
  | JNum js_string
  | JStr js_string
  | JArr "json list"
  | JObj "(js_string \<times> json) list"

datatype 'a outcome = Ok 'a | Syntax_error | Out_of_fuel

definition is_ws :: "code_unit \<Rightarrow> bool" where
  "is_ws c = (c = 0x20 \<or> c = 0x09 \<or> c = 0x0A \<or> c = 0x0D)"

definition skip_ws :: "js_string \<Rightarrow> js_string" where
  "skip_ws cs = dropWhile is_ws cs"

definition is_digit :: "code_unit \<Rightarrow> bool" where
  "is_digit c = (0x30 \<le> c \<and> c \<le> 0x39)"

definition hex_value :: "code_unit \<Rightarrow> nat option" where
  "hex_value c =
     (if 0x30 \<le> c \<and> c \<le> 0x39 then Some (unat c - 0x30)
      else if 0x61 \<le> c \<and> c \<le> 0x66 then Some (unat c - 0x61 + 10)
      else if 0x41 \<le> c \<and> c \<le> 0x46 then Some (unat c - 0x41 + 10)
      else None)"

definition hex4 :: "code_unit \<Rightarrow> code_unit \<Rightarrow> code_unit \<Rightarrow> code_unit \<Rightarrow> code_unit option" where
  "hex4 a b c d =
     (case (hex_value a, hex_value b, hex_value c, hex_value d) of
        (Some h3, Some h2, Some h1, Some h0) \<Rightarrow>
          Some (of_nat (((h3 * 16 + h2) * 16 + h1) * 16 + h0))
      | _ \<Rightarrow> None)"

definition single_escape :: "code_unit \<Rightarrow> code_unit option" where
  "single_escape e =
     (if e = 0x22 then Some 0x22
      else if e = 0x2F then Some 0x2F
      else if e = 0x5C then Some 0x5C
      else if e = 0x62 then Some 0x08
      else if e = 0x66 then Some 0x0C
      else if e = 0x6E then Some 0x0A
      else if e = 0x72 then Some 0x0D
      else if e = 0x74 then Some 0x09
      else None)"

text \<open>
  The characters of a string literal after its opening quote, up to and including the
  closing quote: the string's value and the rest of the text, or \<open>None\<close> for a
  SyntaxError (no closing quote, a raw control character, a bad escape).
\<close>

fun string_chars :: "js_string \<Rightarrow> (js_string \<times> js_string) option" where
  "string_chars [] = None"
| "string_chars (c # cs) =
     (if c = 0x22 then Some ([], cs)
      else if c = 0x5C then
        (case cs of
           [] \<Rightarrow> None
         | e # r \<Rightarrow>
             if e = 0x75 then
               (case r of
                  h3 # h2 # h1 # h0 # r' \<Rightarrow>
                    (case hex4 h3 h2 h1 h0 of
                       None \<Rightarrow> None
                     | Some u \<Rightarrow> map_option (\<lambda>(s, t). (u # s, t)) (string_chars r'))
                | _ \<Rightarrow> None)
             else
               (case single_escape e of
                  None \<Rightarrow> None
                | Some u \<Rightarrow> map_option (\<lambda>(s, t). (u # s, t)) (string_chars r)))
      else if c < 0x20 then None
      else map_option (\<lambda>(s, t). (c # s, t)) (string_chars cs))"

text \<open>
  A number: \<open>-? (0 | [1-9][0-9]*) (. [0-9]+)? ([eE] [+-]? [0-9]+)?\<close>. Each part gives
  the text it matched and the rest.
\<close>

definition int_part :: "js_string \<Rightarrow> (js_string \<times> js_string) option" where
  "int_part cs =
     (case cs of
        [] \<Rightarrow> None
      | d # r \<Rightarrow>
          if d = 0x30 then Some ([d], r)
          else if is_digit d then Some (d # takeWhile is_digit r, dropWhile is_digit r)
          else None)"

definition digits1 :: "js_string \<Rightarrow> (js_string \<times> js_string) option" where
  "digits1 cs =
     (if takeWhile is_digit cs = [] then None
      else Some (takeWhile is_digit cs, dropWhile is_digit cs))"

definition frac_part :: "js_string \<Rightarrow> (js_string \<times> js_string) option" where
  "frac_part cs =
     (case cs of
        [] \<Rightarrow> Some ([], cs)
      | p # r \<Rightarrow>
          if p = 0x2E then map_option (\<lambda>(ds, t). (p # ds, t)) (digits1 r)
          else Some ([], cs))"

definition exp_part :: "js_string \<Rightarrow> (js_string \<times> js_string) option" where
  "exp_part cs =
     (case cs of
        [] \<Rightarrow> Some ([], cs)
      | e # r \<Rightarrow>
          if e = 0x65 \<or> e = 0x45 then
            (case r of
               [] \<Rightarrow> None
             | s # r' \<Rightarrow>
                 if s = 0x2B \<or> s = 0x2D
                 then map_option (\<lambda>(ds, t). (e # s # ds, t)) (digits1 r')
                 else map_option (\<lambda>(ds, t). (e # ds, t)) (digits1 r))
          else Some ([], cs))"

definition unsigned_number :: "js_string \<Rightarrow> (js_string \<times> js_string) option" where
  "unsigned_number cs =
     (case int_part cs of
        None \<Rightarrow> None
      | Some (i, r1) \<Rightarrow>
          (case frac_part r1 of
             None \<Rightarrow> None
           | Some (f, r2) \<Rightarrow>
               (case exp_part r2 of
                  None \<Rightarrow> None
                | Some (e, r3) \<Rightarrow> Some (i @ f @ e, r3))))"

definition number :: "js_string \<Rightarrow> (js_string \<times> js_string) option" where
  "number cs =
     (case cs of
        [] \<Rightarrow> None
      | c # r \<Rightarrow>
          if c = 0x2D then map_option (\<lambda>(n, t). (c # n, t)) (unsigned_number r)
          else unsigned_number cs)"

definition literal :: "js_string \<Rightarrow> js_string \<Rightarrow> js_string option" where
  "literal word cs =
     (if take (length word) cs = word then Some (drop (length word) cs) else None)"

text \<open>
  A value that is not an array or an object: a string, \<open>true\<close>, \<open>false\<close>, \<open>null\<close>
  or a number, chosen by the first character.
\<close>

definition scalar :: "js_string \<Rightarrow> (json \<times> js_string) outcome" where
  "scalar cs =
     (case cs of
        [] \<Rightarrow> Syntax_error
      | c # r \<Rightarrow>
          if c = 0x22 then
            (case string_chars r of
               None \<Rightarrow> Syntax_error
             | Some (s, t) \<Rightarrow> Ok (JStr s, t))
          else if c = 0x74 then
            (case literal (js ''true'') cs of
               None \<Rightarrow> Syntax_error
             | Some t \<Rightarrow> Ok (JBool True, t))
          else if c = 0x66 then
            (case literal (js ''false'') cs of
               None \<Rightarrow> Syntax_error
             | Some t \<Rightarrow> Ok (JBool False, t))
          else if c = 0x6E then
            (case literal (js ''null'') cs of
               None \<Rightarrow> Syntax_error
             | Some t \<Rightarrow> Ok (JNull, t))
          else
            (case number cs of
               None \<Rightarrow> Syntax_error
             | Some (n, t) \<Rightarrow> Ok (JNum n, t)))"

text \<open>
  Values, array elements and object members. The fuel bounds the number of nested
  calls; \<open>JSON_parse\<close> below gives enough of it for the whole text
  (lemma \<open>JSON_parse_fuel\<close>). \<open>parse_elements\<close> starts at the first element of a
  non-empty array and ends after the closing bracket, \<open>parse_members\<close> likewise for
  an object.
\<close>

fun parse_value :: "nat \<Rightarrow> js_string \<Rightarrow> (json \<times> js_string) outcome"
  and parse_elements :: "nat \<Rightarrow> js_string \<Rightarrow> (json list \<times> js_string) outcome"
  and parse_members :: "nat \<Rightarrow> js_string \<Rightarrow> ((js_string \<times> json) list \<times> js_string) outcome"
where
  "parse_value 0 cs = Out_of_fuel"
| "parse_value (Suc n) [] = Syntax_error"
| "parse_value (Suc n) (c # cs) =
     (if c = 0x5B then
        (case skip_ws cs of
           [] \<Rightarrow> Syntax_error
         | d # r \<Rightarrow>
             if d = 0x5D then Ok (JArr [], r)
             else
               (case parse_elements n (d # r) of
                  Ok (vs, r') \<Rightarrow> Ok (JArr vs, r')
                | Syntax_error \<Rightarrow> Syntax_error
                | Out_of_fuel \<Rightarrow> Out_of_fuel))
      else if c = 0x7B then
        (case skip_ws cs of
           [] \<Rightarrow> Syntax_error
         | d # r \<Rightarrow>
             if d = 0x7D then Ok (JObj [], r)
             else
               (case parse_members n (d # r) of
                  Ok (ms, r') \<Rightarrow> Ok (JObj ms, r')
                | Syntax_error \<Rightarrow> Syntax_error
                | Out_of_fuel \<Rightarrow> Out_of_fuel))
      else scalar (c # cs))"
| "parse_elements 0 cs = Out_of_fuel"
| "parse_elements (Suc n) cs =
     (case parse_value n cs of
        Syntax_error \<Rightarrow> Syntax_error
      | Out_of_fuel \<Rightarrow> Out_of_fuel
      | Ok (v, r) \<Rightarrow>
          (case skip_ws r of
             [] \<Rightarrow> Syntax_error
           | d # r' \<Rightarrow>
               if d = 0x2C then
                 (case parse_elements n (skip_ws r') of
                    Ok (vs, r'') \<Rightarrow> Ok (v # vs, r'')
                  | Syntax_error \<Rightarrow> Syntax_error
                  | Out_of_fuel \<Rightarrow> Out_of_fuel)
               else if d = 0x5D then Ok ([v], r')
               else Syntax_error))"
| "parse_members 0 cs = Out_of_fuel"
| "parse_members (Suc n) [] = Syntax_error"
| "parse_members (Suc n) (q # cs) =
     (if q = 0x22 then
        (case string_chars cs of
           None \<Rightarrow> Syntax_error
         | Some (k, r1) \<Rightarrow>
             (case skip_ws r1 of
                [] \<Rightarrow> Syntax_error
              | colon # r2 \<Rightarrow>
                  if colon = 0x3A then
                    (case parse_value n (skip_ws r2) of
                       Syntax_error \<Rightarrow> Syntax_error
                     | Out_of_fuel \<Rightarrow> Out_of_fuel
                     | Ok (v, r3) \<Rightarrow>
                         (case skip_ws r3 of
                            [] \<Rightarrow> Syntax_error
                          | d # r4 \<Rightarrow>
                              if d = 0x2C then
                                (case parse_members n (skip_ws r4) of
                                   Ok (ms, r5) \<Rightarrow> Ok ((k, v) # ms, r5)
                                 | Syntax_error \<Rightarrow> Syntax_error
                                 | Out_of_fuel \<Rightarrow> Out_of_fuel)
                              else if d = 0x7D then Ok ([(k, v)], r4)
                              else Syntax_error))
                  else Syntax_error))
      else Syntax_error)"

datatype error = SyntaxError | Error string

text \<open>
  \<open>JSON.parse(text)\<close>: white space, one value, white space, end of text; anything
  else throws SyntaxError.
\<close>

definition JSON_parse :: "js_string \<Rightarrow> error + json" where
  "JSON_parse text =
     (case parse_value (2 * length text + 1) (skip_ws text) of
        Ok (v, r) \<Rightarrow> if skip_ws r = [] then Inr v else Inl SyntaxError
      | _ \<Rightarrow> Inl SyntaxError)"

section \<open>The progress store (src/context/ProgressContext.tsx)\<close>

text \<open>
  The state of \<open>ProgressProvider\<close> is the React state \<open>completed : string[]\<close>; the
  browser's \<open>localStorage\<close> is a map from keys to string values. \<open>useState([])\<close>
  gives a mounted provider the empty list.
\<close>

record store =
  completed :: "js_string list"
  localStorage :: "js_string \<rightharpoonup> js_string"

definition STORAGE_KEY :: js_string where
  "STORAGE_KEY = js ''completedDocs''"

definition mount :: "(js_string \<rightharpoonup> js_string) \<Rightarrow> store" where
  "mount ls = \<lparr>completed = [], localStorage = ls\<rparr>"

text \<open>
  \<open>localStorage.getItem(STORAGE_KEY) || '[]'\<close>: \<open>getItem\<close> gives \<open>null\<close> for an absent
  key, and \<open>||\<close> takes its right operand for \<open>null\<close> and for the empty string.
\<close>

definition stored_text :: "store \<Rightarrow> js_string" where
  "stored_text s =
     (case localStorage s STORAGE_KEY of
        None \<Rightarrow> js ''[]''
      | Some v \<Rightarrow> if v = [] then js ''[]'' else v)"

text \<open>
  The state is declared \<open>string[]\<close>, and \<open>JSON.parse\<close> returns \<open>any\<close>:
  \<open>string_array\<close> reads a parsed value at the declared type.
\<close>

fun string_elements :: "json list \<Rightarrow> js_string list option" where
  "string_elements [] = Some []"
| "string_elements (JStr x # vs) = map_option ((#) x) (string_elements vs)"
| "string_elements (_ # vs) = None"

fun string_array :: "json \<Rightarrow> js_string list option" where
  "string_array (JArr vs) = string_elements vs"
| "string_array _ = None"

text \<open>
  The effect that \<open>ProgressProvider\<close> runs once after mounting (the spec's
  \<open>initialize()\<close>): \<open>setCompleted(JSON.parse(...))\<close>. There is no \<open>try\<close>: what
  \<open>JSON.parse\<close> throws leaves the effect. A parsed value that is not an array of
  strings is stored as it is, outside the declared type of the state; the model
  returns it as \<open>Untyped\<close> and goes no further.
\<close>

datatype hydration = Threw error | Hydrated store | Untyped json

definition initialize :: "store \<Rightarrow> hydration" where
  "initialize s =
     (case JSON_parse (stored_text s) of
        Inl e \<Rightarrow> Threw e
      | Inr stored \<Rightarrow>
          (case string_array stored of
             Some xs \<Rightarrow> Hydrated (s\<lparr>completed := xs\<rparr>)
           | None \<Rightarrow> Untyped stored))"

text \<open>
  \<open>toggleComplete\<close> as the click handler of the footer's button calls it: one call
  for each click, from the render of the current state, so that the \<open>completed\<close> it
  reads is the list of the state. \<open>localStorage\<close> is taken to accept every write
  (no quota).
\<close>

definition toggleComplete :: "js_string \<Rightarrow> store \<Rightarrow> store" where
  "toggleComplete docId s =
     (let updated =
            (if docId \<in> set (completed s)
             then filter (\<lambda>id. id \<noteq> docId) (completed s)
             else completed s @ [docId])
      in s\<lparr>completed := updated,
           localStorage := (localStorage s)(STORAGE_KEY \<mapsto> JSON_stringify updated)\<rparr>)"

text \<open>
  The \<open>toggleComplete\<close> of one render closes over that render's \<open>completed\<close>:
  it computes \<open>updated\<close> from the rendered list, not from the state at the time of
  the call, and \<open>setCompleted(updated)\<close> then replaces the state. Called from the
  render of the current state it is \<open>toggleComplete\<close> above
  (lemma \<open>toggleComplete_rendered_current\<close>); two calls from one render both start
  from the same list.
\<close>

definition toggleComplete_rendered :: "js_string list \<Rightarrow> js_string \<Rightarrow> store \<Rightarrow> store" where
  "toggleComplete_rendered rendered docId s =
     (let updated =
            (if docId \<in> set rendered
             then filter (\<lambda>id. id \<noteq> docId) rendered
             else rendered @ [docId])
      in s\<lparr>completed := updated,
           localStorage := (localStorage s)(STORAGE_KEY \<mapsto> JSON_stringify updated)\<rparr>)"

definition isCompleted :: "store \<Rightarrow> js_string \<Rightarrow> bool" where
  "isCompleted s docId = (docId \<in> set (completed s))"

text \<open>
  \<open>useProgress\<close> reads the context: \<open>None\<close> is the \<open>undefined\<close> default of
  \<open>createContext\<close>, seen where no \<open>ProgressProvider\<close> is above the caller.
\<close>

definition useProgress :: "store option \<Rightarrow> error + store" where
  "useProgress context =
     (case context of
        None \<Rightarrow> Inl (Error ''useProgress must be used within a ProgressProvider'')
      | Some c \<Rightarrow> Inr c)"

text \<open>
  The states of the store: a mounted provider whose effect has hydrated it, and any
  state a \<open>toggleComplete\<close> call leaves.
\<close>

inductive reachable :: "store \<Rightarrow> bool" where
  hydrated: "initialize (mount ls) = Hydrated s \<Longrightarrow> reachable s"
| toggled: "reachable s \<Longrightarrow> reachable (toggleComplete docId s)"

text \<open>
  What the persisted representation says about an identifier: the answer of
  \<open>isCompleted\<close> in a provider newly mounted on the same \<open>localStorage\<close>, once its
  effect has run; \<open>None\<close> when that effect does not give a list of strings.
\<close>

definition persisted_isCompleted :: "store \<Rightarrow> js_string \<Rightarrow> bool option" where
  "persisted_isCompleted s docId =
     (case initialize (mount (localStorage s)) of
        Hydrated p \<Rightarrow> Some (isCompleted p docId)
      | _ \<Rightarrow> None)"

section \<open>The footer with the toggle button (FooterWrapper)\<close>

text \<open>
  \<open>pathname.replace(/^\/docs\//, '')\<close> removes the six characters \<open>/docs/\<close> when the
  path starts with them; \<open>.replace(/\/$/, '')\<close> removes one \<open>/\<close> when the string
  ends with it.
\<close>

definition strip_docs_prefix :: "js_string \<Rightarrow> js_string" where
  "strip_docs_prefix p = (if take 6 p = js ''/docs/'' then drop 6 p else p)"

definition strip_trailing_slash :: "js_string \<Rightarrow> js_string" where
  "strip_trailing_slash p = (if p \<noteq> [] \<and> last p = 0x2F then butlast p else p)"

definition docId_of :: "js_string \<Rightarrow> js_string" where
  "docId_of pathname = strip_trailing_slash (strip_docs_prefix pathname)"

text \<open>
  What \<open>FooterWrapper\<close> renders: the original footer alone, or the original footer
  and the button, with the identifier its click toggles, its background colour and
  its label (to mark the page unread when it is completed, read when it is not).
\<close>

datatype label = Mark_unread | Mark_read

datatype rendering =
    OriginalFooter
  | OriginalFooter_and_button js_string string label

definition FooterWrapper :: "store option \<Rightarrow> js_string \<Rightarrow> error + rendering" where
  "FooterWrapper context pathname =
     (case useProgress context of
        Inl e \<Rightarrow> Inl e
      | Inr c \<Rightarrow>
          (let docId = docId_of pathname
           in if docId = [] \<or> docId = [] \<or> \<not> (0x2F \<in> set docId)
              then Inr OriginalFooter
              else Inr (OriginalFooter_and_button docId
                         (if isCompleted c docId then ''gray'' else ''green'')
                         (if isCompleted c docId then Mark_unread else Mark_read))))"

section \<open>JSON.parse consumes its input and never runs out of fuel\<close>

lemma length_skip_ws: "length (skip_ws cs) \<le> length cs"
  by (simp add: skip_ws_def length_dropWhile_le)

lemma skip_ws_Cons_length: "skip_ws cs = d # r \<Longrightarrow> length r < length cs"
  using length_skip_ws [of cs] by simp

lemma less_skip_ws: "length r < length (skip_ws cs) \<Longrightarrow> length r < length cs"
  using length_skip_ws [of cs] by simp

lemma string_chars_shorter: "string_chars cs = Some (s, r) \<Longrightarrow> length r < length cs"
proof (induction cs arbitrary: s r rule: string_chars.induct)
  case 1
  then show ?case by simp
next
  case (2 c cs)
  then show ?case
    by (fastforce split: if_splits list.splits option.splits)
qed

lemma literal_shorter: "literal w cs = Some r \<Longrightarrow> w \<noteq> [] \<Longrightarrow> length r < length cs"
  by (cases cs) (auto simp: literal_def split: if_splits)

lemma digits1_length: "digits1 cs = Some (ds, r) \<Longrightarrow> length r \<le> length cs"
  by (auto simp: digits1_def length_dropWhile_le split: if_splits)

lemma int_part_shorter: "int_part cs = Some (ds, r) \<Longrightarrow> length r < length cs"
  by (auto simp: int_part_def length_dropWhile_le less_Suc_eq_le split: list.splits if_splits)

lemma frac_part_length: "frac_part cs = Some (ds, r) \<Longrightarrow> length r \<le> length cs"
  by (auto simp: frac_part_def split: list.splits if_splits dest!: digits1_length)

lemma exp_part_length: "exp_part cs = Some (ds, r) \<Longrightarrow> length r \<le> length cs"
  by (auto simp: exp_part_def split: list.splits if_splits dest!: digits1_length)

lemma unsigned_number_shorter: "unsigned_number cs = Some (ds, r) \<Longrightarrow> length r < length cs"
  by (auto simp: unsigned_number_def split: option.splits
        dest!: int_part_shorter frac_part_length exp_part_length)

lemma number_shorter: "number cs = Some (ds, r) \<Longrightarrow> length r < length cs"
  by (auto simp: number_def split: list.splits if_splits dest!: unsigned_number_shorter)

lemma scalar_shorter: "scalar cs = Ok (v, r) \<Longrightarrow> length r < length cs"
  by (cases cs)
     (auto simp: scalar_def js_def split: if_splits option.splits
        dest!: string_chars_shorter number_shorter literal_shorter)

lemma scalar_fuel: "scalar cs \<noteq> Out_of_fuel"
  by (auto simp: scalar_def split: list.splits option.splits)


lemma parse_shorter:
  "(\<forall>cs v r. parse_value n cs = Ok (v, r) \<longrightarrow> length r < length cs)
   \<and> (\<forall>cs vs r. parse_elements n cs = Ok (vs, r) \<longrightarrow> length r < length cs)
   \<and> (\<forall>cs ms r. parse_members n cs = Ok (ms, r) \<longrightarrow> length r < length cs)"
proof (induction n)
  case 0
  show ?case by simp
next
  case (Suc n)
  then have val: "parse_value n cs = Ok (v, r) \<Longrightarrow> length r < length cs"
    and els: "parse_elements n cs = Ok (vs, r) \<Longrightarrow> length r < length cs"
    and mems: "parse_members n cs = Ok (ms, r) \<Longrightarrow> length r < length cs" for cs v vs ms r
    by blast+
  have "length r < length cs" if "parse_value (Suc n) cs = Ok (v, r)" for cs v r
  proof (cases cs)
    case Nil
    with that show ?thesis by simp
  next
    case (Cons c t)
    with that show ?thesis
      by (auto split: if_splits list.splits outcome.splits
            dest!: skip_ws_Cons_length els mems scalar_shorter)
  qed
  moreover have "length r < length cs" if "parse_elements (Suc n) cs = Ok (vs, r)" for cs vs r
    using that
    by (auto split: outcome.splits list.splits if_splits
          dest!: val els skip_ws_Cons_length less_skip_ws)
  moreover have "length r < length cs" if "parse_members (Suc n) cs = Ok (ms, r)" for cs ms r
  proof (cases cs)
    case Nil
    with that show ?thesis by simp
  next
    case (Cons q t)
    with that show ?thesis
      by (auto split: outcome.splits list.splits if_splits option.splits
            dest!: val mems skip_ws_Cons_length string_chars_shorter less_skip_ws)
  qed
  ultimately show ?case by blast
qed


lemma parse_value_shorter: "parse_value n cs = Ok (v, r) \<Longrightarrow> length r < length cs"
  using parse_shorter by blast

lemma parse_fuel:
  "(\<forall>cs. 2 * length cs < n \<longrightarrow> parse_value n cs \<noteq> Out_of_fuel)
   \<and> (\<forall>cs. 2 * length cs + 1 < n \<longrightarrow> parse_elements n cs \<noteq> Out_of_fuel)
   \<and> (\<forall>cs. 2 * length cs + 1 < n \<longrightarrow> parse_members n cs \<noteq> Out_of_fuel)"
proof (induction n)
  case 0
  show ?case by simp
next
  case (Suc n)
  then have val: "2 * length cs < n \<Longrightarrow> parse_value n cs \<noteq> Out_of_fuel"
    and els: "2 * length cs + 1 < n \<Longrightarrow> parse_elements n cs \<noteq> Out_of_fuel"
    and mems: "2 * length cs + 1 < n \<Longrightarrow> parse_members n cs \<noteq> Out_of_fuel" for cs
    by blast+
  have "parse_value (Suc n) cs \<noteq> Out_of_fuel" if "2 * length cs < Suc n" for cs
  proof (cases cs)
    case Nil
    then show ?thesis by simp
  next
    case (Cons c t)
    show ?thesis
    proof (cases "skip_ws t")
      case Nil
      then show ?thesis
        using Cons by (simp add: scalar_fuel)
    next
      case sk: (Cons d r)
      then have "length (d # r) \<le> length t"
        using length_skip_ws [of t] by simp
      then have "2 * length (d # r) + 1 < n"
        using that Cons by simp
      then have "parse_elements n (d # r) \<noteq> Out_of_fuel" "parse_members n (d # r) \<noteq> Out_of_fuel"
        by (rule els, rule mems)
      then show ?thesis
        using Cons sk by (auto simp: scalar_fuel split: outcome.splits)
    qed
  qed
  moreover have "parse_elements (Suc n) cs \<noteq> Out_of_fuel" if "2 * length cs + 1 < Suc n" for cs
  proof (cases "parse_value n cs")
    case (Ok p)
    obtain v r where p: "p = (v, r)"
      by (cases p)
    have r: "length r < length cs"
      using Ok p by (auto dest: parse_value_shorter)
    show ?thesis
    proof (cases "skip_ws r")
      case Nil
      then show ?thesis
        using Ok p by simp
    next
      case (Cons d r')
      then have "length r' < length r"
        by (rule skip_ws_Cons_length)
      then have "2 * length (skip_ws r') + 1 < n"
        using r that length_skip_ws [of r'] by simp
      then have "parse_elements n (skip_ws r') \<noteq> Out_of_fuel"
        by (rule els)
      then show ?thesis
        using Ok p Cons by (auto split: outcome.splits)
    qed
  next
    case Syntax_error
    then show ?thesis by simp
  next
    case Out_of_fuel
    then show ?thesis
      using val [of cs] that by simp
  qed
  moreover have "parse_members (Suc n) cs \<noteq> Out_of_fuel" if "2 * length cs + 1 < Suc n" for cs
  proof (cases cs)
    case Nil
    then show ?thesis by simp
  next
    case (Cons q t)
    show ?thesis
    proof (cases "string_chars t")
      case None
      then show ?thesis
        using Cons by simp
    next
      case (Some p)
      obtain k r1 where p: "p = (k, r1)"
        by (cases p)
      have r1: "length r1 < length t"
        using Some p by (auto dest: string_chars_shorter)
      show ?thesis
      proof (cases "skip_ws r1")
        case Nil
        then show ?thesis
          using Cons Some p by simp
      next
        case sk1: (Cons colon r2)
        then have r2: "length r2 < length r1"
          by (rule skip_ws_Cons_length)
        show ?thesis
        proof (cases "parse_value n (skip_ws r2)")
          case (Ok p')
          obtain v r3 where p': "p' = (v, r3)"
            by (cases p')
          have r3: "length r3 < length r2"
            using Ok p' by (auto dest!: parse_value_shorter less_skip_ws)
          show ?thesis
          proof (cases "skip_ws r3")
            case Nil
            then show ?thesis
              using Cons Some p sk1 Ok p' by simp
          next
            case sk3: (Cons d r4)
            then have "length r4 < length r3"
              by (rule skip_ws_Cons_length)
            then have "2 * length (skip_ws r4) + 1 < n"
              using r1 r2 r3 that Cons length_skip_ws [of r4] by simp
            then have "parse_members n (skip_ws r4) \<noteq> Out_of_fuel"
              by (rule mems)
            then show ?thesis
              using Cons Some p sk1 Ok p' sk3 by (auto split: outcome.splits)
          qed
        next
          case Syntax_error
          then show ?thesis
            using Cons Some p sk1 by simp
        next
          case Out_of_fuel
          have "2 * length (skip_ws r2) < n"
            using r1 r2 that Cons length_skip_ws [of r2] by simp
          then show ?thesis
            using val [of "skip_ws r2"] Out_of_fuel by simp
        qed
      qed
    qed
  qed
  ultimately show ?case by blast
qed

lemma JSON_parse_fuel: "parse_value (2 * length s + 1) (skip_ws s) \<noteq> Out_of_fuel"
proof -
  have "2 * length (skip_ws s) < 2 * length s + 1"
    using length_skip_ws [of s] by simp
  then show ?thesis
    using parse_fuel by blast
qed

section \<open>JSON.parse reads back what JSON.stringify wrote\<close>

lemma hex_value_hex_digit_all: "\<forall>d\<in>set [0..<16]. hex_value (hex_digit d) = Some d"
  by code_simp

lemma hex_value_hex_digit: "d < 16 \<Longrightarrow> hex_value (hex_digit d) = Some d"
  using hex_value_hex_digit_all by simp

lemma hex_digits_nat:
  fixes n :: nat
  shows "((n div 4096 * 16 + n div 256 mod 16) * 16 + n div 16 mod 16) * 16 + n mod 16 = n"
proof -
  have a: "n div 16 * 16 + n mod 16 = n"
    by (rule div_mult_mod_eq)
  have "n div 16 div 16 = n div 256"
    by (simp add: div_mult2_eq [symmetric])
  then have b: "n div 256 * 16 + n div 16 mod 16 = n div 16"
    using div_mult_mod_eq [of "n div 16" 16] by simp
  have "n div 256 div 16 = n div 4096"
    by (simp add: div_mult2_eq [symmetric])
  then have c: "n div 4096 * 16 + n div 256 mod 16 = n div 256"
    using div_mult_mod_eq [of "n div 256" 16] by simp
  show ?thesis
    by (simp only: c b a)
qed

lemma hex4_UnicodeEscape:
  "hex4 (hex_digit (unat c div 4096)) (hex_digit (unat c div 256 mod 16))
        (hex_digit (unat c div 16 mod 16)) (hex_digit (unat c mod 16)) = Some c"
proof -
  have "unat c < 65536"
    using unsigned_less [of c, where ?'a = nat] by simp
  then have d3: "unat c div 4096 < 16"
    by simp
  have v: "hex_value (hex_digit (unat c div 4096)) = Some (unat c div 4096)"
    "hex_value (hex_digit (unat c div 256 mod 16)) = Some (unat c div 256 mod 16)"
    "hex_value (hex_digit (unat c div 16 mod 16)) = Some (unat c div 16 mod 16)"
    "hex_value (hex_digit (unat c mod 16)) = Some (unat c mod 16)"
    using d3 by (simp_all add: hex_value_hex_digit)
  show ?thesis
    unfolding hex4_def v by (simp only: prod.case option.case hex_digits_nat) simp
qed

lemma string_chars_plain:
  "c \<noteq> 0x22 \<Longrightarrow> c \<noteq> 0x5C \<Longrightarrow> \<not> c < 0x20 \<Longrightarrow>
     string_chars (c # cs) = map_option (\<lambda>(s, t). (c # s, t)) (string_chars cs)"
  by simp

lemma string_chars_single:
  "single_escape e = Some u \<Longrightarrow> e \<noteq> 0x75 \<Longrightarrow>
     string_chars (0x5C # e # cs) = map_option (\<lambda>(s, t). (u # s, t)) (string_chars cs)"
  by simp

lemma string_chars_unicode:
  "hex4 h3 h2 h1 h0 = Some u \<Longrightarrow>
     string_chars (0x5C # 0x75 # h3 # h2 # h1 # h0 # cs)
       = map_option (\<lambda>(s, t). (u # s, t)) (string_chars cs)"
  by simp

lemma string_chars_quote_unit:
  "string_chars (quote_unit c @ rest) = map_option (\<lambda>(s, t). (c # s, t)) (string_chars rest)"
proof -
  consider "c = 0x08" | "c = 0x09" | "c = 0x0A" | "c = 0x0C" | "c = 0x0D" | "c = 0x22" | "c = 0x5C"
    | "c \<noteq> 0x08" "c \<noteq> 0x09" "c \<noteq> 0x0A" "c \<noteq> 0x0C" "c \<noteq> 0x0D" "c \<noteq> 0x22" "c \<noteq> 0x5C"
      "c < 0x20 \<or> is_leading_surrogate c \<or> is_trailing_surrogate c"
    | "c \<noteq> 0x08" "c \<noteq> 0x09" "c \<noteq> 0x0A" "c \<noteq> 0x0C" "c \<noteq> 0x0D" "c \<noteq> 0x22" "c \<noteq> 0x5C"
      "\<not> (c < 0x20 \<or> is_leading_surrogate c \<or> is_trailing_surrogate c)"
    by blast
  then show ?thesis
  proof cases
    case 8
    then have "quote_unit c = UnicodeEscape c"
      by (simp add: quote_unit_def)
    then show ?thesis
      by (simp add: UnicodeEscape_def string_chars_unicode [OF hex4_UnicodeEscape]
            del: string_chars.simps)
  next
    case 9
    then have "quote_unit c = [c]"
      by (simp add: quote_unit_def)
    with 9 show ?thesis
      by (simp add: string_chars_plain del: string_chars.simps)
  qed (simp_all add: quote_unit_def string_chars_single single_escape_def del: string_chars.simps)
qed


lemma surrogate_plain:
  "is_leading_surrogate c \<or> is_trailing_surrogate c \<Longrightarrow> c \<noteq> 0x22 \<and> c \<noteq> 0x5C \<and> \<not> c < 0x20"
  by (auto simp: is_leading_surrogate_def is_trailing_surrogate_def word_le_nat_alt
        word_less_nat_alt)

lemma string_chars_quote_units:
  "string_chars (quote_units s @ 0x22 # rest) = Some (s, rest)"
proof (induction s rule: quote_units.induct)
  case 1
  show ?case by simp
next
  case (2 c)
  show ?case by (simp add: string_chars_quote_unit del: string_chars.simps) simp
next
  case (3 c d cs)
  show ?case
  proof (cases "is_leading_surrogate c \<and> is_trailing_surrogate d")
    case True
    then have "quote_units (c # d # cs) = c # d # quote_units cs"
      by simp
    moreover have "string_chars (quote_units cs @ 0x22 # rest) = Some (cs, rest)"
      using 3 True by simp
    ultimately show ?thesis
      using True surrogate_plain [of c] surrogate_plain [of d]
      by (simp add: string_chars_plain del: string_chars.simps quote_units.simps)
  next
    case False
    then have "quote_units (c # d # cs) = quote_unit c @ quote_units (d # cs)"
      by auto
    moreover have "string_chars (quote_units (d # cs) @ 0x22 # rest) = Some (d # cs, rest)"
      using 3 False by simp
    ultimately show ?thesis
      by (simp add: string_chars_quote_unit del: string_chars.simps quote_units.simps)
  qed
qed

lemma parse_value_QuoteJSONString:
  "parse_value (Suc n) (QuoteJSONString s @ rest) = Ok (JStr s, rest)"
  by (simp add: QuoteJSONString_def scalar_def string_chars_quote_units del: string_chars.simps)


lemma skip_ws_Nil: "skip_ws [] = []"
  by (simp add: skip_ws_def)

lemma skip_ws_plain: "\<not> is_ws c \<Longrightarrow> skip_ws (c # cs) = c # cs"
  by (simp add: skip_ws_def)

lemma parse_elements_last:
  "parse_value n cs = Ok (v, r) \<Longrightarrow> skip_ws r = 0x5D # r' \<Longrightarrow>
     parse_elements (Suc n) cs = Ok ([v], r')"
  by simp

lemma parse_elements_more:
  "parse_value n cs = Ok (v, r) \<Longrightarrow> skip_ws r = 0x2C # r' \<Longrightarrow>
     parse_elements n (skip_ws r') = Ok (vs, r'') \<Longrightarrow>
     parse_elements (Suc n) cs = Ok (v # vs, r'')"
  by simp

lemma parse_value_empty_array:
  "skip_ws cs = 0x5D # r \<Longrightarrow> parse_value (Suc n) (0x5B # cs) = Ok (JArr [], r)"
  by simp

lemma parse_value_array:
  "skip_ws cs = d # r \<Longrightarrow> d \<noteq> 0x5D \<Longrightarrow> parse_elements n (d # r) = Ok (vs, r') \<Longrightarrow>
     parse_value (Suc n) (0x5B # cs) = Ok (JArr vs, r')"
  by simp

lemma join_commas_quote:
  "xs \<noteq> [] \<Longrightarrow> \<exists>r. join_commas (map QuoteJSONString xs) = 0x22 # r"
  by (induction xs rule: join_commas.induct) (auto simp: QuoteJSONString_def)

lemma parse_elements_join_commas:
  "xs \<noteq> [] \<Longrightarrow> length xs < n \<Longrightarrow>
     parse_elements n (join_commas (map QuoteJSONString xs) @ 0x5D # rest) = Ok (map JStr xs, rest)"
proof (induction xs arbitrary: n)
  case Nil
  then show ?case by simp
next
  case (Cons x xs)
  then obtain m where n: "n = Suc (Suc m)" and m: "length xs \<le> m"
    by (cases n; cases "n - 1") auto
  have v: "parse_value (Suc m) (QuoteJSONString x @ t) = Ok (JStr x, t)" for t
    by (rule parse_value_QuoteJSONString)
  show ?case
  proof (cases xs)
    case Nil
    have "parse_elements (Suc (Suc m)) (QuoteJSONString x @ 0x5D # rest) = Ok ([JStr x], rest)"
      by (rule parse_elements_last [OF v]) (simp add: skip_ws_plain is_ws_def)
    then show ?thesis
      using Nil n by simp
  next
    case (Cons y ys)
    let ?t = "join_commas (map QuoteJSONString xs) @ 0x5D # rest"
    obtain r where r: "join_commas (map QuoteJSONString xs) = 0x22 # r"
      using join_commas_quote [of xs] Cons by auto
    have sk: "skip_ws ?t = ?t"
      by (simp add: r skip_ws_plain is_ws_def)
    have ih: "parse_elements (Suc m) (skip_ws ?t) = Ok (map JStr xs, rest)"
      unfolding sk using Cons.IH [of "Suc m"] Cons m by simp
    have "parse_elements (Suc (Suc m)) (QuoteJSONString x @ 0x2C # ?t)
            = Ok (JStr x # map JStr xs, rest)"
      by (rule parse_elements_more [OF v _ ih]) (simp add: skip_ws_plain is_ws_def)
    then show ?thesis
      using Cons n by simp
  qed
qed

lemma length_join_commas: "length xs \<le> length (join_commas (map QuoteJSONString xs))"
  by (induction xs rule: join_commas.induct) (auto simp: QuoteJSONString_def)

lemma parse_value_JSON_stringify:
  "length (JSON_stringify xs) \<le> n \<Longrightarrow>
     parse_value n (JSON_stringify xs @ rest) = Ok (JArr (map JStr xs), rest)"
proof (cases xs)
  case Nil
  assume "length (JSON_stringify xs) \<le> n"
  then obtain m where "n = Suc m"
    by (cases n) (auto simp: JSON_stringify_def)
  then show ?thesis
    using Nil by (simp add: JSON_stringify_def parse_value_empty_array skip_ws_plain is_ws_def
        del: parse_value.simps)
next
  case (Cons y ys)
  assume "length (JSON_stringify xs) \<le> n"
  then obtain m where n: "n = Suc m" and m: "length xs < m"
    using length_join_commas [of xs] by (cases n) (auto simp: JSON_stringify_def)
  let ?t = "join_commas (map QuoteJSONString xs)"
  obtain r where r: "?t = 0x22 # r"
    using join_commas_quote [of xs] Cons by auto
  have "parse_elements m (?t @ 0x5D # rest) = Ok (map JStr xs, rest)"
    using parse_elements_join_commas [of xs m rest] Cons m by simp
  then have "parse_elements m (0x22 # (r @ 0x5D # rest)) = Ok (map JStr xs, rest)"
    by (simp add: r)
  then have "parse_value (Suc m) (0x5B # ?t @ 0x5D # rest) = Ok (JArr (map JStr xs), rest)"
    by (intro parse_value_array [where d = "0x22" and r = "r @ 0x5D # rest"])
       (simp_all add: r skip_ws_plain is_ws_def)
  then show ?thesis
    by (simp add: JSON_stringify_def n)
qed

lemma JSON_parse_JSON_stringify:
  "JSON_parse (JSON_stringify xs) = Inr (JArr (map JStr xs))"
proof -
  have sk: "skip_ws (JSON_stringify xs) = JSON_stringify xs"
    by (simp add: JSON_stringify_def skip_ws_plain is_ws_def)
  have "parse_value (2 * length (JSON_stringify xs) + 1) (JSON_stringify xs @ [])
          = Ok (JArr (map JStr xs), [])"
    by (rule parse_value_JSON_stringify) simp
  then show ?thesis
    by (simp add: JSON_parse_def sk skip_ws_Nil)
qed

lemma string_elements_map_JStr: "string_elements (map JStr xs) = Some xs"
  by (induction xs) simp_all

lemma JSON_parse_error:
  "JSON_parse s = Inl e \<Longrightarrow>
     e = SyntaxError \<and>
     (parse_value (2 * length s + 1) (skip_ws s) = Syntax_error
      \<or> (\<exists>v r. parse_value (2 * length s + 1) (skip_ws s) = Ok (v, r) \<and> skip_ws r \<noteq> []))"
  using JSON_parse_fuel [of s]
  by (auto simp: JSON_parse_def split: outcome.splits if_splits)

section \<open>Hydration and the persisted value\<close>

lemma JSON_stringify_not_empty: "JSON_stringify xs \<noteq> []"
  by (simp add: JSON_stringify_def)

lemma JSON_parse_empty_array: "JSON_parse (js ''[]'') = Inr (JArr [])"
  by code_simp

lemma JSON_parse_not_json: "JSON_parse (js ''not json'') = Inl SyntaxError"
  by code_simp

lemma js_not_json_not_empty: "js ''not json'' \<noteq> []"
  by (simp add: js_def)

lemma initialize_key_absent:
  "localStorage s STORAGE_KEY = None \<Longrightarrow> initialize s = Hydrated (s\<lparr>completed := []\<rparr>)"
  by (simp add: initialize_def stored_text_def JSON_parse_empty_array)

lemma initialize_string_array:
  "JSON_parse (stored_text s) = Inr (JArr (map JStr xs)) \<Longrightarrow>
     initialize s = Hydrated (s\<lparr>completed := xs\<rparr>)"
  by (simp add: initialize_def string_elements_map_JStr)

lemma initialize_stringified:
  "localStorage s STORAGE_KEY = Some (JSON_stringify xs) \<Longrightarrow>
     initialize s = Hydrated (s\<lparr>completed := xs\<rparr>)"
  by (rule initialize_string_array)
     (simp add: stored_text_def JSON_stringify_not_empty JSON_parse_JSON_stringify)

lemma initialize_parse_error:
  "localStorage s STORAGE_KEY = Some v \<Longrightarrow> v \<noteq> [] \<Longrightarrow> JSON_parse v = Inl e \<Longrightarrow>
     initialize s = Threw e"
  by (simp add: initialize_def stored_text_def)

lemma initialize_fields:
  "initialize s = Hydrated s' \<Longrightarrow> localStorage s' = localStorage s"
  by (auto simp: initialize_def split: sum.splits option.splits)

lemma initialize_mount_toggleComplete:
  "initialize (mount (localStorage (toggleComplete d s))) = Hydrated (toggleComplete d s)"
proof -
  let ?s' = "toggleComplete d s"
  have "localStorage (mount (localStorage ?s')) STORAGE_KEY = Some (JSON_stringify (completed ?s'))"
    by (simp add: mount_def toggleComplete_def Let_def)
  then have "initialize (mount (localStorage ?s'))
               = Hydrated ((mount (localStorage ?s'))\<lparr>completed := completed ?s'\<rparr>)"
    by (rule initialize_stringified)
  then show ?thesis
    by (simp add: mount_def)
qed

lemma initialize_mount_idem:
  "initialize (mount ls) = Hydrated s \<Longrightarrow> initialize (mount (localStorage s)) = Hydrated s"
  using initialize_fields [of "mount ls" s] by (simp add: mount_def)

lemma reachable_in_sync:
  "reachable s \<Longrightarrow> initialize (mount (localStorage s)) = Hydrated s"
  by (induction rule: reachable.induct)
     (simp_all add: initialize_mount_idem initialize_mount_toggleComplete)

lemma fold_toggleComplete_in_sync:
  "initialize (mount (localStorage s)) = Hydrated s \<Longrightarrow>
     initialize (mount (localStorage (fold toggleComplete ds s)))
       = Hydrated (fold toggleComplete ds s)"
  by (induction ds arbitrary: s) (simp_all add: initialize_mount_toggleComplete)

lemma reachable_fresh: "reachable (mount Map.empty)"
proof -
  have "initialize (mount Map.empty) = Hydrated ((mount Map.empty)\<lparr>completed := []\<rparr>)"
    by (rule initialize_key_absent) (simp add: mount_def)
  then have "initialize (mount Map.empty) = Hydrated (mount Map.empty)"
    by (simp add: mount_def)
  then show ?thesis
    by (rule reachable.hydrated)
qed


section \<open>Membership after a toggle\<close>

lemma completed_toggleComplete:
  "completed (toggleComplete d s) =
     (if d \<in> set (completed s) then filter (\<lambda>x. x \<noteq> d) (completed s)
      else completed s @ [d])"
  by (simp add: toggleComplete_def Let_def)

lemma set_completed_toggleComplete:
  "set (completed (toggleComplete d s)) =
     (if d \<in> set (completed s) then set (completed s) - {d}
      else insert d (set (completed s)))"
  by (auto simp: completed_toggleComplete)

lemma localStorage_toggleComplete:
  "localStorage (toggleComplete d s) =
     (localStorage s)(STORAGE_KEY \<mapsto> JSON_stringify (completed (toggleComplete d s)))"
  by (simp add: toggleComplete_def Let_def)

lemma isCompleted_toggleComplete_other:
  "a \<noteq> b \<Longrightarrow> isCompleted (toggleComplete a s) b = isCompleted s b"
  by (auto simp: isCompleted_def set_completed_toggleComplete)

lemma toggleComplete_rendered_current:
  "toggleComplete_rendered (completed s) d s = toggleComplete d s"
  by (simp add: toggleComplete_rendered_def toggleComplete_def)

lemma completed_toggleComplete_rendered:
  "completed (toggleComplete_rendered r d s) =
     (if d \<in> set r then filter (\<lambda>x. x \<noteq> d) r else r @ [d])"
  by (simp add: toggleComplete_rendered_def Let_def)

lemma persisted_isCompleted_toggleComplete:
  "persisted_isCompleted (toggleComplete a s) b = Some (isCompleted (toggleComplete a s) b)"
  by (simp add: persisted_isCompleted_def initialize_mount_toggleComplete)

lemma js_a_b: "js ''a'' \<noteq> js ''b''"
  by (simp add: js_def)

lemma js_abc_distinct: "distinct [js ''a'', js ''b'', js ''c'']"
  by (simp add: js_def)

lemma JSON_parse_a_b:
  \<open>JSON_parse (js ''["a","b"]'') = Inr (JArr (map JStr [js ''a'', js ''b'']))\<close>
  by code_simp

lemma JSON_parse_b:
  \<open>JSON_parse (js ''["b"]'') = Inr (JArr (map JStr [js ''b'']))\<close>
  by code_simp

section \<open>The claims\<close>

text \<open>
  C1, as the code has it. When the value under the key is present, not empty and not
  valid JSON, such as \<open>not json\<close>, \<open>JSON.parse\<close> throws SyntaxError and the effect
  throws it on: \<open>setCompleted\<close> is not reached and initialization gives no completion set.
\<close>

theorem initialize_invalid_JSON_throws:
  "localStorage s STORAGE_KEY = Some v \<Longrightarrow> v \<noteq> [] \<Longrightarrow> JSON_parse v = Inl e \<Longrightarrow>
     initialize s = Threw SyntaxError \<and> e = SyntaxError"
  using initialize_parse_error [of s v e] JSON_parse_error [of v e] by simp

theorem initialize_invalid_JSON_throws_witness:
  "localStorage (mount (Map.empty(STORAGE_KEY \<mapsto> js ''not json''))) STORAGE_KEY
     = Some (js ''not json'')
   \<and> js ''not json'' \<noteq> []
   \<and> JSON_parse (js ''not json'') = Inl SyntaxError
   \<and> initialize (mount (Map.empty(STORAGE_KEY \<mapsto> js ''not json''))) = Threw SyntaxError"
  using initialize_invalid_JSON_throws
    [of "mount (Map.empty(STORAGE_KEY \<mapsto> js ''not json''))" "js ''not json''" SyntaxError]
  by (simp add: mount_def JSON_parse_not_json js_not_json_not_empty)

text \<open>
  C1 as the spec states it fails: with \<open>not json\<close> under the key, initialization
  throws SyntaxError instead of giving the empty completion set.
\<close>

theorem initialize_not_json_counterexample:
  "initialize (mount (Map.empty(STORAGE_KEY \<mapsto> js ''not json''))) = Threw SyntaxError
   \<and> initialize (mount (Map.empty(STORAGE_KEY \<mapsto> js ''not json'')))
       \<noteq> Hydrated (mount (Map.empty(STORAGE_KEY \<mapsto> js ''not json'')))"
  by (simp add: initialize_def stored_text_def mount_def JSON_parse_not_json
        js_not_json_not_empty)

text \<open>
  C2, as the code has it. For every identifier and every state, two \<open>toggleComplete\<close>
  calls on the identifier, the first from the render of that state and the second
  from the render of the state the first call has set (as two clicks on the button
  are), give \<open>isCompleted\<close> of the identifier the value it had before the first call.
\<close>

theorem toggleComplete_twice_across_renders:
  "rendered = completed s \<Longrightarrow> s1 = toggleComplete_rendered rendered d s \<Longrightarrow>
   rendered1 = completed s1 \<Longrightarrow>
     isCompleted (toggleComplete_rendered rendered1 d s1) d = isCompleted s d
     \<and> toggleComplete_rendered rendered1 d s1 = toggleComplete d (toggleComplete d s)"
  by (simp add: toggleComplete_rendered_current isCompleted_def set_completed_toggleComplete)

theorem toggleComplete_twice_across_renders_witness:
  "completed \<lparr>completed = [js ''a'', js ''b''], localStorage = Map.empty\<rparr> = [js ''a'', js ''b'']
   \<and> completed (toggleComplete_rendered [js ''a'', js ''b''] (js ''a'')
         \<lparr>completed = [js ''a'', js ''b''], localStorage = Map.empty\<rparr>) = [js ''b'']
   \<and> isCompleted \<lparr>completed = [js ''a'', js ''b''], localStorage = Map.empty\<rparr> (js ''a'')
   \<and> isCompleted
        (toggleComplete_rendered [js ''b''] (js ''a'')
          (toggleComplete_rendered [js ''a'', js ''b''] (js ''a'')
            \<lparr>completed = [js ''a'', js ''b''], localStorage = Map.empty\<rparr>))
        (js ''a'')"
proof -
  let ?s = "\<lparr>completed = [js ''a'', js ''b''], localStorage = Map.empty\<rparr>"
  let ?s1 = "toggleComplete_rendered [js ''a'', js ''b''] (js ''a'') ?s"
  have r: "[js ''a'', js ''b''] = completed ?s"
    by simp
  have r1: "[js ''b''] = completed ?s1"
    using js_a_b by (simp add: completed_toggleComplete_rendered)
  have m: "isCompleted ?s (js ''a'')"
    by (simp add: isCompleted_def)
  show ?thesis
    using r r1 [symmetric] m
      toggleComplete_twice_across_renders [OF r refl r1, THEN conjunct1]
    by simp
qed

text \<open>
  C2 as the spec states it fails: two calls in succession from one render both read
  that render's list. From the empty list the first call sets \<open>[a]\<close> and the second
  sets \<open>[a]\<close> again, so \<open>a\<close>, not completed before, is completed after both.
\<close>

theorem toggleComplete_twice_same_render_counterexample:
  "completed (mount Map.empty) = []
   \<and> \<not> isCompleted (mount Map.empty) (js ''a'')
   \<and> isCompleted
        (toggleComplete_rendered [] (js ''a'')
          (toggleComplete_rendered [] (js ''a'') (mount Map.empty)))
        (js ''a'')"
  by (simp add: mount_def isCompleted_def completed_toggleComplete_rendered)

text \<open>
  C3. \<open>toggleComplete(docId)\<close> removes the identifier from the completion set when
  it is a member and adds it otherwise; the new list is then written under the fixed
  key, replacing the value that was there and leaving the other keys alone, as JSON
  text that \<open>JSON.parse\<close> reads as the array of exactly these strings.
\<close>

theorem toggleComplete_updates_and_persists:
  "set (completed (toggleComplete d s)) =
     (if d \<in> set (completed s) then set (completed s) - {d}
      else insert d (set (completed s)))
   \<and> localStorage (toggleComplete d s) =
       (localStorage s)(STORAGE_KEY \<mapsto> JSON_stringify (completed (toggleComplete d s)))
   \<and> JSON_parse (JSON_stringify (completed (toggleComplete d s))) =
       Inr (JArr (map JStr (completed (toggleComplete d s))))"
  by (simp only: set_completed_toggleComplete localStorage_toggleComplete [symmetric]
        JSON_parse_JSON_stringify)

text \<open>
  C4. Start from a provider whose effect has hydrated it, call \<open>toggleComplete\<close> any
  finite number of times, and mount a new provider on the \<open>localStorage\<close> that is left:
  its effect gives exactly the first provider's final state, so the same completion
  list, in the same order.
\<close>

theorem reinitialize_after_toggles:
  "initialize (mount ls) = Hydrated s0 \<Longrightarrow>
     initialize (mount (localStorage (fold toggleComplete ds s0)))
       = Hydrated (fold toggleComplete ds s0)"
  by (rule fold_toggleComplete_in_sync) (rule initialize_mount_idem)

theorem reinitialize_after_toggles_witness:
  "initialize (mount Map.empty) = Hydrated (mount Map.empty)
   \<and> initialize (mount (localStorage
         (fold toggleComplete [js ''a'', js ''b'', js ''a''] (mount Map.empty))))
       = Hydrated (fold toggleComplete [js ''a'', js ''b'', js ''a''] (mount Map.empty))
   \<and> completed (fold toggleComplete [js ''a'', js ''b'', js ''a''] (mount Map.empty))
       = [js ''b'']"
proof -
  have h: "initialize (mount Map.empty) = Hydrated (mount Map.empty)"
    using initialize_key_absent [of "mount Map.empty"] by (simp add: mount_def)
  have "completed (fold toggleComplete [js ''a'', js ''b'', js ''a''] (mount Map.empty))
          = [js ''b'']"
    using js_a_b by (simp add: completed_toggleComplete mount_def)
  then show ?thesis
    using h reinitialize_after_toggles [OF h, of "[js ''a'', js ''b'', js ''a'']"] by simp
qed

text \<open>
  C5, as the code has it. \<open>toggleComplete(a)\<close>, called from the render of the
  current state, leaves \<open>isCompleted(b)\<close> as it was for every \<open>b\<close> other than \<open>a\<close>
  in the list in memory, whatever the state. It writes
  the new list over the persisted value, so afterwards the persisted value says of
  \<open>b\<close> what the list in memory said before the call: the persisted answer is
  unchanged when it agreed with the list before the call, as it does in every state
  that \<open>initialize\<close> and \<open>toggleComplete\<close> calls lead to.
\<close>

theorem toggleComplete_isolation:
  "a \<noteq> b \<Longrightarrow>
     isCompleted (toggleComplete a s) b = isCompleted s b
     \<and> persisted_isCompleted (toggleComplete a s) b = Some (isCompleted s b)
     \<and> (persisted_isCompleted s b = Some (isCompleted s b) \<longrightarrow>
          persisted_isCompleted (toggleComplete a s) b = persisted_isCompleted s b)
     \<and> (reachable s \<longrightarrow> persisted_isCompleted s b = Some (isCompleted s b))"
proof -
  assume ab: "a \<noteq> b"
  have mem: "isCompleted (toggleComplete a s) b = isCompleted s b"
    using ab by (rule isCompleted_toggleComplete_other)
  have after: "persisted_isCompleted (toggleComplete a s) b = Some (isCompleted s b)"
    by (simp add: persisted_isCompleted_toggleComplete mem)
  have "persisted_isCompleted s b = Some (isCompleted s b)" if "reachable s"
    using reachable_in_sync [OF that] by (simp add: persisted_isCompleted_def)
  then show ?thesis
    using mem after by simp
qed

theorem toggleComplete_isolation_witness:
  "js ''a'' \<noteq> js ''b''
   \<and> reachable (toggleComplete (js ''b'') (mount Map.empty))
   \<and> isCompleted (toggleComplete (js ''b'') (mount Map.empty)) (js ''b'')
   \<and> isCompleted (toggleComplete (js ''a'') (toggleComplete (js ''b'') (mount Map.empty))) (js ''b'')
   \<and> persisted_isCompleted (toggleComplete (js ''b'') (mount Map.empty)) (js ''b'') = Some True
   \<and> persisted_isCompleted
        (toggleComplete (js ''a'') (toggleComplete (js ''b'') (mount Map.empty))) (js ''b'')
       = Some True"
proof -
  have r: "reachable (toggleComplete (js ''b'') (mount Map.empty))"
    by (rule reachable.toggled) (rule reachable_fresh)
  have m: "isCompleted (toggleComplete (js ''b'') (mount Map.empty)) (js ''b'')"
    by (simp add: isCompleted_def completed_toggleComplete mount_def)
  show ?thesis
    using js_a_b r m
      toggleComplete_isolation [OF js_a_b, of "toggleComplete (js ''b'') (mount Map.empty)"]
    by simp
qed

text \<open>
  C5 as the spec states it fails: take the list in memory empty while \<open>["b"]\<close> is
  under the key. Before \<open>toggleComplete(a)\<close> the persisted value says \<open>b\<close> is
  completed; the call writes \<open>["a"]\<close>, and the persisted value says it is not.
\<close>

theorem toggleComplete_isolation_counterexample:
  \<open>js ''a'' \<noteq> js ''b''
   \<and> persisted_isCompleted
        \<lparr>completed = [], localStorage = Map.empty(STORAGE_KEY \<mapsto> js ''["b"]'')\<rparr> (js ''b'')
       = Some True
   \<and> persisted_isCompleted
        (toggleComplete (js ''a'')
          \<lparr>completed = [], localStorage = Map.empty(STORAGE_KEY \<mapsto> js ''["b"]'')\<rparr>)
        (js ''b'')
       = Some False\<close>
proof -
  let ?s = \<open>\<lparr>completed = [], localStorage = Map.empty(STORAGE_KEY \<mapsto> js ''["b"]'')\<rparr>\<close>
  have ne: \<open>js ''["b"]'' \<noteq> []\<close>
    by (simp add: js_def)
  have \<open>JSON_parse (stored_text (mount (localStorage ?s))) = Inr (JArr (map JStr [js ''b'']))\<close>
    using ne by (simp add: stored_text_def mount_def JSON_parse_b)
  then have \<open>initialize (mount (localStorage ?s))
               = Hydrated ((mount (localStorage ?s))\<lparr>completed := [js ''b'']\<rparr>)\<close>
    by (rule initialize_string_array)
  then have before: \<open>persisted_isCompleted ?s (js ''b'') = Some True\<close>
    by (simp add: persisted_isCompleted_def isCompleted_def)
  have after: \<open>persisted_isCompleted (toggleComplete (js ''a'') ?s) (js ''b'') = Some False\<close>
    using js_a_b
    by (simp add: persisted_isCompleted_toggleComplete isCompleted_def completed_toggleComplete)
  show ?thesis
    using js_a_b before after by simp
qed

text \<open>
  C6. When the storage key is absent, initialization completes without an error and
  gives the empty list, so \<open>isCompleted(d)\<close> is false for every string \<open>d\<close>.
\<close>

theorem initialize_fresh:
  "localStorage s STORAGE_KEY = None \<Longrightarrow>
     initialize s = Hydrated (s\<lparr>completed := []\<rparr>) \<and> \<not> isCompleted (s\<lparr>completed := []\<rparr>) d"
  by (simp add: initialize_key_absent isCompleted_def)

theorem initialize_fresh_witness:
  "localStorage (mount Map.empty) STORAGE_KEY = None
   \<and> initialize (mount Map.empty) = Hydrated (mount Map.empty)
   \<and> \<not> isCompleted (mount Map.empty) (js ''module8/8-1-risks'')"
  using initialize_fresh [of "mount Map.empty" "js ''module8/8-1-risks''"]
  by (simp add: mount_def)

text \<open>
  C7, as the code has it. Initialization gives the persisted array as it is, so the list
  has no duplicates after it when the persisted array of strings has none (the
  absent key counts as the empty array); and every \<open>toggleComplete\<close> call keeps a
  list without duplicates free of them.
\<close>

theorem no_duplicates_preserved:
  "(JSON_parse (stored_text s) = Inr (JArr (map JStr xs)) \<and> distinct xs \<longrightarrow>
      initialize s = Hydrated (s\<lparr>completed := xs\<rparr>) \<and> distinct (completed (s\<lparr>completed := xs\<rparr>)))
   \<and> (distinct (completed s) \<longrightarrow> distinct (completed (toggleComplete d s)))"
  by (simp add: initialize_string_array completed_toggleComplete)

theorem no_duplicates_preserved_witness:
  \<open>JSON_parse (stored_text (mount (Map.empty(STORAGE_KEY \<mapsto> js ''["a","b"]''))))
     = Inr (JArr (map JStr [js ''a'', js ''b'']))
   \<and> distinct [js ''a'', js ''b'']
   \<and> initialize (mount (Map.empty(STORAGE_KEY \<mapsto> js ''["a","b"]'')))
       = Hydrated \<lparr>completed = [js ''a'', js ''b''],
                   localStorage = Map.empty(STORAGE_KEY \<mapsto> js ''["a","b"]'')\<rparr>
   \<and> completed (toggleComplete (js ''c'')
         \<lparr>completed = [js ''a'', js ''b''],
          localStorage = Map.empty(STORAGE_KEY \<mapsto> js ''["a","b"]'')\<rparr>)
       = [js ''a'', js ''b'', js ''c'']
   \<and> distinct (completed (toggleComplete (js ''c'')
         \<lparr>completed = [js ''a'', js ''b''],
          localStorage = Map.empty(STORAGE_KEY \<mapsto> js ''["a","b"]'')\<rparr>))
   \<and> completed (toggleComplete (js ''a'')
         \<lparr>completed = [js ''a'', js ''b''],
          localStorage = Map.empty(STORAGE_KEY \<mapsto> js ''["a","b"]'')\<rparr>)
       = [js ''b'']
   \<and> distinct (completed (toggleComplete (js ''a'')
         \<lparr>completed = [js ''a'', js ''b''],
          localStorage = Map.empty(STORAGE_KEY \<mapsto> js ''["a","b"]'')\<rparr>))\<close>
proof -
  let ?ls = \<open>Map.empty(STORAGE_KEY \<mapsto> js ''["a","b"]'')\<close>
  let ?h = \<open>\<lparr>completed = [js ''a'', js ''b''], localStorage = ?ls\<rparr>\<close>
  have ne: \<open>js ''["a","b"]'' \<noteq> []\<close>
    by (simp add: js_def)
  have p: \<open>JSON_parse (stored_text (mount ?ls)) = Inr (JArr (map JStr [js ''a'', js ''b'']))\<close>
    using ne by (simp add: stored_text_def mount_def JSON_parse_a_b)
  have d: \<open>distinct [js ''a'', js ''b'']\<close> \<open>distinct (completed ?h)\<close>
    using js_abc_distinct by simp_all
  have c: \<open>completed (toggleComplete (js ''c'') ?h) = [js ''a'', js ''b'', js ''c'']\<close>
    \<open>completed (toggleComplete (js ''a'') ?h) = [js ''b'']\<close>
    using js_abc_distinct by (auto simp: completed_toggleComplete)
  have i: \<open>initialize (mount ?ls) = Hydrated ?h\<close>
    using p d no_duplicates_preserved [of \<open>mount ?ls\<close> \<open>[js ''a'', js ''b'']\<close> \<open>js ''c''\<close>]
    by (simp add: mount_def)
  have t: \<open>distinct (completed (toggleComplete (js ''c'') ?h))\<close>
    \<open>distinct (completed (toggleComplete (js ''a'') ?h))\<close>
    using d no_duplicates_preserved [of ?h \<open>[]\<close> \<open>js ''c''\<close>]
      no_duplicates_preserved [of ?h \<open>[]\<close> \<open>js ''a''\<close>]
    by simp_all
  show ?thesis
    using p d(1) i c t by simp
qed

text \<open>
  C7 as the spec states it fails: with the array \<open>["a","a"]\<close> under the key,
  initialization gives a list that holds \<open>a\<close> twice.
\<close>

theorem initialize_duplicates_counterexample:
  \<open>initialize (mount (Map.empty(STORAGE_KEY \<mapsto> js ''["a","a"]'')))
     = Hydrated \<lparr>completed = [js ''a'', js ''a''],
                 localStorage = Map.empty(STORAGE_KEY \<mapsto> js ''["a","a"]'')\<rparr>
   \<and> \<not> distinct [js ''a'', js ''a'']\<close>
proof -
  have \<open>JSON_parse (js ''["a","a"]'') = Inr (JArr [JStr (js ''a''), JStr (js ''a'')])\<close>
    by code_simp
  moreover have \<open>js ''["a","a"]'' \<noteq> []\<close>
    by (simp add: js_def)
  ultimately show ?thesis
    by (simp add: initialize_def stored_text_def mount_def)
qed

text \<open>
  C8. With no \<open>ProgressProvider\<close> above the caller the context value is undefined,
  and \<open>useProgress\<close> throws the error that says so instead of returning a value; a
  component that calls it, such as the footer, throws the same error.
\<close>

theorem useProgress_outside_provider:
  "useProgress None = Inl (Error ''useProgress must be used within a ProgressProvider'')
   \<and> FooterWrapper None pathname =
       Inl (Error ''useProgress must be used within a ProgressProvider'')
   \<and> (\<forall>r. useProgress None \<noteq> Inr r)"
  by (simp add: useProgress_def FooterWrapper_def)

theorem useProgress_outside_provider_witness:
  "useProgress None = Inl (Error ''useProgress must be used within a ProgressProvider'')
   \<and> FooterWrapper None (js ''/docs/module8/intro'') =
       Inl (Error ''useProgress must be used within a ProgressProvider'')"
  using useProgress_outside_provider [of "js ''/docs/module8/intro''"]
  by simp

text \<open>
  C9. The footer takes the identifier from the path: the leading \<open>/docs/\<close> goes, and
  a slash at the end goes. When the identifier is empty or has no \<open>/\<close> in it, only
  the original footer is rendered; when it has a \<open>/\<close>, the original footer and the
  toggle button for that identifier are.
\<close>

theorem FooterWrapper_guard:
  "docId_of (js ''/docs/'' @ r @ [0x2F]) = r
   \<and> (r = [] \<or> last r \<noteq> 0x2F \<longrightarrow> docId_of (js ''/docs/'' @ r) = r)
   \<and> (docId_of p = [] \<or> 0x2F \<notin> set (docId_of p) \<longrightarrow>
        FooterWrapper (Some c) p = Inr OriginalFooter)
   \<and> (0x2F \<in> set (docId_of p) \<longrightarrow>
        FooterWrapper (Some c) p =
          Inr (OriginalFooter_and_button (docId_of p)
                (if isCompleted c (docId_of p) then ''gray'' else ''green'')
                (if isCompleted c (docId_of p) then Mark_unread else Mark_read)))"
proof -
  have l: "length (js ''/docs/'') = 6"
    by (simp add: js_def)
  have "docId_of (js ''/docs/'' @ r @ [0x2F]) = r"
    by (simp add: docId_of_def strip_docs_prefix_def strip_trailing_slash_def l)
  moreover have "docId_of (js ''/docs/'' @ r) = r" if "r = [] \<or> last r \<noteq> 0x2F"
    using that by (auto simp: docId_of_def strip_docs_prefix_def strip_trailing_slash_def l)
  moreover have "FooterWrapper (Some c) p = Inr OriginalFooter"
    if "docId_of p = [] \<or> 0x2F \<notin> set (docId_of p)"
    using that by (auto simp: FooterWrapper_def useProgress_def Let_def)
  moreover have "FooterWrapper (Some c) p =
          Inr (OriginalFooter_and_button (docId_of p)
                (if isCompleted c (docId_of p) then ''gray'' else ''green'')
                (if isCompleted c (docId_of p) then Mark_unread else Mark_read))"
    if "0x2F \<in> set (docId_of p)"
    using that by (auto simp: FooterWrapper_def useProgress_def Let_def)
  ultimately show ?thesis
    by blast
qed

theorem FooterWrapper_guard_witness:
  "docId_of (js ''/docs/module2'') = js ''module2''
   \<and> FooterWrapper (Some (mount Map.empty)) (js ''/docs/module2'') = Inr OriginalFooter
   \<and> docId_of (js ''/docs/module8/intro/'') = js ''module8/intro''
   \<and> FooterWrapper (Some (mount Map.empty)) (js ''/docs/module8/intro/'')
       = Inr (OriginalFooter_and_button (js ''module8/intro'') ''green'' Mark_read)"
proof -
  have a: "js ''/docs/module2'' = js ''/docs/'' @ js ''module2''"
    and b: "js ''/docs/module8/intro/'' = js ''/docs/'' @ js ''module8/intro'' @ [0x2F]"
    by (simp_all add: js_def)
  have n: "last (js ''module2'') \<noteq> 0x2F" "0x2F \<notin> set (js ''module2'')"
    "0x2F \<in> set (js ''module8/intro'')"
    "\<not> isCompleted (mount Map.empty) (js ''module8/intro'')"
    by (simp_all add: js_def isCompleted_def mount_def)
  show ?thesis
    using n
      FooterWrapper_guard [of "js ''module2''" "js ''/docs/module2''" "mount Map.empty"]
      FooterWrapper_guard [of "js ''module8/intro''" "js ''/docs/module8/intro/''" "mount Map.empty"]
    unfolding a b [symmetric]
    by simp
qed

text \<open>
  C10. When the list holds the identifier, also more than once, one
  \<open>toggleComplete\<close> call removes every occurrence: \<open>isCompleted\<close> is false right
  after the call and the list no longer counts the identifier.
\<close>

theorem toggleComplete_removes_all:
  "d \<in> set (completed s) \<Longrightarrow>
     \<not> isCompleted (toggleComplete d s) d \<and> count_list (completed (toggleComplete d s)) d = 0"
  by (simp add: isCompleted_def completed_toggleComplete count_list_0_iff)

theorem toggleComplete_removes_all_witness:
  "js ''a'' \<in> set (completed \<lparr>completed = [js ''a'', js ''b'', js ''a''], localStorage = Map.empty\<rparr>)
   \<and> count_list (completed \<lparr>completed = [js ''a'', js ''b'', js ''a''], localStorage = Map.empty\<rparr>) (js ''a'') = 2
   \<and> \<not> isCompleted (toggleComplete (js ''a'')
          \<lparr>completed = [js ''a'', js ''b'', js ''a''], localStorage = Map.empty\<rparr>) (js ''a'')
   \<and> count_list (completed (toggleComplete (js ''a'')
          \<lparr>completed = [js ''a'', js ''b'', js ''a''], localStorage = Map.empty\<rparr>)) (js ''a'') = 0"
  using toggleComplete_removes_all
    [of "js ''a''" "\<lparr>completed = [js ''a'', js ''b'', js ''a''], localStorage = Map.empty\<rparr>"]
  by (simp add: js_def)

end
